theory Spec2Isabelle
  imports Main "HOL-Library.Multiset"
begin

section \<open>Cards (src/types.ts)\<close>

text \<open>
  The enum \<open>SUIT\<close> with its numeric values 1..4, and the interface \<open>Card\<close>.  The field
  \<open>value\<close> of the source is called \<open>card_value\<close> here.  The numbers of the program are
  integral in every path followed below and are modelled as integers: ranks, values, seed
  entries, amounts and the cursor.  The cursor is the one number the program keeps adding
  to; its additions are those of a double (\<open>js_add\<close> below).
\<close>

datatype SUIT = CLUBS | DIAMONDS | HEARTS | SPADES

fun suit_num :: "SUIT \<Rightarrow> int" where
  "suit_num CLUBS = 1"
| "suit_num DIAMONDS = 2"
| "suit_num HEARTS = 3"
| "suit_num SPADES = 4"

record Card =
  suit :: SUIT
  rank :: int
  card_value :: int
  mnemonic :: string

text \<open>
  The errors of the source are plain \<open>Error\<close> objects told apart by their message; the
  constructors carry what the message interpolates.  \<open>TypeError\<close> is the runtime's error for
  reading \<open>.mnemonic\<close> of \<open>undefined\<close>, \<open>RangeError\<close> its error for an array length of
  \<open>2^32\<close> or more.
\<close>

datatype error =
    InvalidDeckLength
  | InvalidMnemonic string
  | InvalidSuit string
  | SeedLengthMismatch nat nat
  | TypeError
  | RangeError

section \<open>Strings and numbers of the runtime\<close>

definition ZERO_HASH :: string where
  "ZERO_HASH = ''0x'' @ replicate 64 (CHR ''0'')"

text \<open>\<open>xs.join(sep)\<close> and \<open>s.split(c)\<close> for a one-character separator.\<close>

fun join :: "string \<Rightarrow> string list \<Rightarrow> string" where
  "join sep [] = []"
| "join sep [x] = x"
| "join sep (x # y # ys) = x @ sep @ join sep (y # ys)"

fun split :: "char \<Rightarrow> string \<Rightarrow> string list" where
  "split sep [] = [[]]"
| "split sep (c # cs) =
     (if c = sep then [] # split sep cs
      else (case split sep cs of
              [] \<Rightarrow> [[c]]
            | t # ts \<Rightarrow> (c # t) # ts))"

text \<open>
  \<open>Number.prototype.toString\<close> on an integer: its decimal numeral, with a minus sign (the
  runtime switches to the exponent form from \<open>10^21\<close> on).
\<close>

definition digit_char :: "nat \<Rightarrow> char" where
  "digit_char n = ''0123456789'' ! n"

fun nat_toString :: "nat \<Rightarrow> string" where
  "nat_toString n =
     (if n < 10 then [digit_char n]
      else nat_toString (n div 10) @ [digit_char (n mod 10)])"

declare nat_toString.simps [simp del]

definition number_toString :: "int \<Rightarrow> string" where
  "number_toString n =
     (if n < 0 then CHR ''-'' # nat_toString (nat (- n)) else nat_toString (nat n))"

text \<open>
  \<open>toUpperCase\<close>, on the ASCII letters: the source applies it to the two groups of a
  successful match only, which hold ASCII letters and digits.
\<close>

definition toUpperCase_char :: "char \<Rightarrow> char" where
  "toUpperCase_char c =
     (case map_of (zip ''abcdefghijklmnopqrstuvwxyz'' ''ABCDEFGHIJKLMNOPQRSTUVWXYZ'') c of
        None \<Rightarrow> c
      | Some u \<Rightarrow> u)"

definition toUpperCase :: "string \<Rightarrow> string" where
  "toUpperCase s = map toUpperCase_char s"

text \<open>
  \<open>parseInt(s, 10)\<close> on a non-empty string of decimal digits, which is all the regular
  expression lets through to the \<open>default\<close> branch of the rank switch.  The value is the
  exact integer; the runtime's number is that integer for numerals below \<open>2^53\<close>.
\<close>

definition digit_val :: "char \<Rightarrow> nat" where
  "digit_val c = length (takeWhile (\<lambda>d. d \<noteq> c) ''0123456789'')"

definition parseInt :: "string \<Rightarrow> int" where
  "parseInt s = int (foldl (\<lambda>acc c. 10 * acc + digit_val c) 0 s)"

text \<open>
  The remainder operator \<open>%\<close> on integers: the result has the sign of the dividend.
\<close>

definition js_rem :: "int \<Rightarrow> int \<Rightarrow> int" where
  "js_rem a b = sgn a * (\<bar>a\<bar> mod \<bar>b\<bar>)"

text \<open>
  Addition of two integral doubles: the exact sum, rounded to the nearest double, a tie going
  to the even significand.  Every integer up to \<open>2^53\<close> in magnitude is a double; beyond, with
  \<open>2^e\<close> the leading bit, the doubles are the multiples of \<open>2^(e - 52)\<close>.  (Sums below the
  largest double, about \<open>1.8 * 10^308\<close>.)
\<close>

fun bit_exponent :: "nat \<Rightarrow> nat" where
  "bit_exponent n = (if n < 2 then 0 else Suc (bit_exponent (n div 2)))"

declare bit_exponent.simps [simp del]

definition to_double :: "int \<Rightarrow> int" where
  "to_double x =
     (let a = nat \<bar>x\<bar>
      in if a \<le> 2 ^ 53 then x
         else let s = 2 ^ (bit_exponent a - 52);
                  q = a div s;
                  r = a mod s;
                  q' = (if 2 * r < s then q
                        else if s < 2 * r then q + 1
                        else if even q then q else q + 1)
              in sgn x * int (q' * s))"

definition js_add :: "int \<Rightarrow> int \<Rightarrow> int" where
  "js_add a b = to_double (a + b)"

section \<open>The mnemonic codec\<close>

text \<open>\<open>Deck.getCardMnemonic\<close>, with its two lookup tables.\<close>

definition rankMap :: "int \<rightharpoonup> string" where
  "rankMap = [1 \<mapsto> ''A'', 11 \<mapsto> ''J'', 12 \<mapsto> ''Q'', 13 \<mapsto> ''K'']"

fun suitMap :: "SUIT \<Rightarrow> string" where
  "suitMap CLUBS = ''C''"
| "suitMap DIAMONDS = ''D''"
| "suitMap HEARTS = ''H''"
| "suitMap SPADES = ''S''"

definition getCardMnemonic :: "SUIT \<Rightarrow> int \<Rightarrow> string" where
  "getCardMnemonic s r =
     (let rankStr = (case rankMap r of Some x \<Rightarrow> x | None \<Rightarrow> number_toString r);
          suitStr = suitMap s
      in rankStr @ suitStr)"

text \<open>
  The match of \<open>/^([AJQKajqk]|[0-9]+)([CDHS])$/i\<close>: the second group is the last character,
  one of C, D, H, S in either case (the flag \<open>i\<close>); the first group is everything before it,
  either a single letter of A, J, Q, K in either case or one or more decimal digits.
\<close>

definition is_digit :: "char \<Rightarrow> bool" where
  "is_digit c \<longleftrightarrow> c \<in> set ''0123456789''"

definition is_rank_letter :: "char \<Rightarrow> bool" where
  "is_rank_letter c \<longleftrightarrow> c \<in> set ''AJQKajqk''"

definition is_suit_letter :: "char \<Rightarrow> bool" where
  "is_suit_letter c \<longleftrightarrow> c \<in> set ''CDHScdhs''"

definition mnemonic_match :: "string \<Rightarrow> (string \<times> string) option" where
  "mnemonic_match m =
     (if m = [] then None
      else let g1 = butlast m; g2 = [last m]
           in if (g1 \<noteq> [] \<and> (list_all is_digit g1 \<or> (length g1 = 1 \<and> is_rank_letter (hd g1))))
                 \<and> is_suit_letter (last m)
              then Some (g1, g2) else None)"

text \<open>\<open>Deck.fromString\<close>.\<close>

definition suit_of_char :: "string \<Rightarrow> SUIT option" where
  "suit_of_char suitChar =
     (if suitChar = ''C'' then Some CLUBS
      else if suitChar = ''D'' then Some DIAMONDS
      else if suitChar = ''H'' then Some HEARTS
      else if suitChar = ''S'' then Some SPADES
      else None)"

definition fromString :: "string \<Rightarrow> error + Card" where
  "fromString m =
     (case mnemonic_match m of
        None \<Rightarrow> Inl (InvalidMnemonic m)
      | Some (g1, g2) \<Rightarrow>
          let rankStr = toUpperCase g1;
              suitChar = toUpperCase g2;
              rnk = (if rankStr = ''A'' then 1
                     else if rankStr = ''J'' then 11
                     else if rankStr = ''Q'' then 12
                     else if rankStr = ''K'' then 13
                     else parseInt rankStr)
          in (case suit_of_char suitChar of
                None \<Rightarrow> Inl (InvalidSuit suitChar)
              | Some s \<Rightarrow>
                  Inr \<lparr>suit = s, rank = rnk,
                       card_value = 13 * (suit_num s - 1) + (rnk - 1),
                       mnemonic = m\<rparr>))"

section \<open>The deck\<close>

text \<open>
  The object's state.  \<open>cards\<close> holds the elements of the array, \<open>None\<close> for \<open>undefined\<close>.
  An array is an object: an assignment \<open>cards[j] = v\<close> with a negative \<open>j\<close> stores a property
  beside the elements and leaves the length alone; \<open>cards_neg\<close> holds these properties
  (\<open>None\<close> where nothing or \<open>undefined\<close> is stored).  \<open>top_pos\<close> is the field \<open>top\<close>.
\<close>

record Deck =
  cards :: "Card option list"
  cards_neg :: "int \<Rightarrow> Card option"
  hash :: string
  seedHash :: string
  top_pos :: int

text \<open>
  Reading and writing \<open>this.cards[k]\<close>.  No index at or beyond the length is ever written
  (the shuffle has \<open>j \<le> i < length\<close>); reading there gives \<open>undefined\<close>.
\<close>

definition cards_read :: "Deck \<Rightarrow> int \<Rightarrow> Card option" where
  "cards_read d k =
     (if k < 0 then cards_neg d k
      else if k < int (length (cards d)) then cards d ! nat k
      else None)"

definition cards_write :: "Deck \<Rightarrow> int \<Rightarrow> Card option \<Rightarrow> Deck" where
  "cards_write d k v =
     (if k < 0 then d\<lparr>cards_neg := (cards_neg d)(k := v)\<rparr>
      else d\<lparr>cards := (cards d)[nat k := v]\<rparr>)"

text \<open>
  \<open>createHash\<close>; the digest \<open>H\<close> stands for SHA-256 with hexadecimal output, which lives in
  the runtime's \<open>crypto\<close> module.  Mapping \<open>card => card.mnemonic\<close> over an array with an
  \<open>undefined\<close> element throws before \<open>hash\<close> is assigned.
\<close>

definition createHash :: "(string \<Rightarrow> string) \<Rightarrow> Deck \<Rightarrow> error option \<times> Deck" where
  "createHash H d =
     (case those (cards d) of
        None \<Rightarrow> (Some TypeError, d)
      | Some cs \<Rightarrow> (None, d\<lparr>hash := H (join ''-'' (map mnemonic cs))\<rparr>))"

text \<open>
  \<open>initStandard52\<close>: a new array, filled by the nested loops with the suits in enumeration
  order and the ranks 1 to 13 within each; \<open>standard_cards\<close> is the sequence of the pushes.
\<close>

definition standard_card :: "SUIT \<Rightarrow> int \<Rightarrow> Card" where
  "standard_card s r =
     \<lparr>suit = s, rank = r, card_value = 13 * (suit_num s - 1) + (r - 1),
      mnemonic = getCardMnemonic s r\<rparr>"

definition standard_cards :: "Card list" where
  "standard_cards =
     concat (map (\<lambda>s. map (\<lambda>r. standard_card s r) [1..13])
                 [CLUBS, DIAMONDS, HEARTS, SPADES])"

definition initStandard52 :: "(string \<Rightarrow> string) \<Rightarrow> Deck \<Rightarrow> error option \<times> Deck" where
  "initStandard52 H d =
     createHash H (d\<lparr>cards := map Some standard_cards, cards_neg := (\<lambda>k. None)\<rparr>)"

text \<open>
  The constructor.  The loop over the tokens carries the index, the cursor found so far and
  the cards pushed so far; a token that fails to parse ends the construction with its error.
\<close>

definition bracketed :: "string \<Rightarrow> bool" where
  "bracketed m \<longleftrightarrow> m \<noteq> [] \<and> hd m = CHR ''['' \<and> last m = CHR '']''"

fun restore_loop ::
  "nat \<Rightarrow> string list \<Rightarrow> int \<Rightarrow> Card option list \<Rightarrow> error + (int \<times> Card option list)" where
  "restore_loop i [] t cs = Inr (t, cs)"
| "restore_loop i (m # ms) t cs =
     (let m' = (if bracketed m then butlast (tl m) else m);
          t' = (if bracketed m then int i else t)
      in (case fromString m' of
            Inl e \<Rightarrow> Inl e
          | Inr c \<Rightarrow> restore_loop (Suc i) ms t' (cs @ [Some c])))"

definition new_object :: Deck where
  "new_object = \<lparr>cards = [], cards_neg = (\<lambda>k. None), hash = [], seedHash = [], top_pos = 0\<rparr>"

definition finish_construction :: "(string \<Rightarrow> string) \<Rightarrow> Deck \<Rightarrow> error + Deck" where
  "finish_construction H d =
     (case createHash H (d\<lparr>hash := ZERO_HASH\<rparr>) of
        (Some e, _) \<Rightarrow> Inl e
      | (None, d') \<Rightarrow> Inr (d'\<lparr>seedHash := ZERO_HASH\<rparr>))"

definition Deck_new :: "(string \<Rightarrow> string) \<Rightarrow> string option \<Rightarrow> error + Deck" where
  "Deck_new H deck =
     (if deck \<noteq> None \<and> deck \<noteq> Some []
      then let mnemonics = split (CHR ''-'') (the deck)
           in if length mnemonics \<noteq> 52 then Inl InvalidDeckLength
              else (case restore_loop 0 mnemonics 0 [] of
                      Inl e \<Rightarrow> Inl e
                    | Inr (t, cs) \<Rightarrow>
                        finish_construction H (new_object\<lparr>cards := cs, top_pos := t\<rparr>))
      else (case initStandard52 H new_object of
              (Some e, _) \<Rightarrow> Inl e
            | (None, d) \<Rightarrow> finish_construction H d))"

text \<open>
  \<open>shuffle\<close>.  The loop runs \<open>i\<close> from \<open>length - 1\<close> down to 1; the destructuring assignment
  reads \<open>cards[j]\<close> and \<open>cards[i]\<close> and then writes \<open>cards[i]\<close> and \<open>cards[j]\<close>, in this order.
  \<open>rnd k\<close> stands for the \<open>k\<close>-th value of \<open>Math.floor(1000000 * Math.random())\<close> drawn by the
  call.  The result pairs the error thrown, if any, with the state the object is left in.
\<close>

fun shuffle_loop :: "int list \<Rightarrow> nat \<Rightarrow> Deck \<Rightarrow> Deck" where
  "shuffle_loop seed 0 d = d"
| "shuffle_loop seed (Suc k) d =
     (let i = int (Suc k);
          j = js_rem (seed ! Suc k) (i + 1);
          a = cards_read d j;
          b = cards_read d i
      in shuffle_loop seed k (cards_write (cards_write d i a) j b))"

definition shuffle ::
  "(string \<Rightarrow> string) \<Rightarrow> (nat \<Rightarrow> nat) \<Rightarrow> int list option \<Rightarrow> Deck \<Rightarrow> error option \<times> Deck" where
  "shuffle H rnd seed0 d =
     (let seed = (if seed0 = None \<or> seed0 = Some []
                  then map (\<lambda>k. int (rnd k)) [0..<length (cards d)]
                  else the seed0)
      in if length seed \<noteq> length (cards d)
         then (Some (SeedLengthMismatch (length seed) (length (cards d))), d)
         else let d1 = d\<lparr>seedHash := H (join ''-'' (map number_toString seed))\<rparr>;
                  d2 = shuffle_loop seed (length (cards d1) - 1) d1
              in createHash H d2)"

text \<open>
  \<open>getNext\<close> and \<open>deal\<close>.  \<open>this.top++\<close> and \<open>this.top += amount\<close> add doubles.
  \<open>Array.from({ length: amount }, f)\<close> takes the length (a negative one counts as 0, one
  beyond \<open>2^53 - 1\<close> as \<open>2^53 - 1\<close>), creates the array, which throws for a length of \<open>2^32\<close>
  or more, and then calls \<open>f\<close> once per index below the length, in order.
\<close>

definition getNext :: "Deck \<Rightarrow> Card option \<times> Deck" where
  "getNext d = (cards_read d (top_pos d), d\<lparr>top_pos := js_add (top_pos d) 1\<rparr>)"

fun getNext_times :: "nat \<Rightarrow> Deck \<Rightarrow> Card option list \<times> Deck" where
  "getNext_times 0 d = ([], d)"
| "getNext_times (Suc n) d =
     (let (c, d1) = getNext d;
          (cs, d2) = getNext_times n d1
      in (c # cs, d2))"

definition ToLength :: "int \<Rightarrow> nat" where
  "ToLength n = (if n \<le> 0 then 0 else nat (min n (2 ^ 53 - 1)))"

definition deal :: "int \<Rightarrow> Deck \<Rightarrow> (error + Card option list) \<times> Deck" where
  "deal amount d =
     (let d1 = d\<lparr>top_pos := js_add (top_pos d) amount\<rparr>;
          len = ToLength amount
      in if 2 ^ 32 \<le> len then (Inl RangeError, d1)
         else (case getNext_times len d1 of (cs, d2) \<Rightarrow> (Inr cs, d2)))"

text \<open>\<open>toString\<close>: the loop over the indices, then the join.\<close>

fun toString_loop :: "int \<Rightarrow> nat \<Rightarrow> Card option list \<Rightarrow> error + string list" where
  "toString_loop t i [] = Inr []"
| "toString_loop t i (c # cs) =
     (case c of
        None \<Rightarrow> Inl TypeError
      | Some crd \<Rightarrow>
          (case toString_loop t (Suc i) cs of
             Inl e \<Rightarrow> Inl e
           | Inr ms \<Rightarrow>
               Inr ((if int i = t then ''['' @ mnemonic crd @ '']'' else mnemonic crd) # ms)))"

definition toString :: "Deck \<Rightarrow> error + string" where
  "toString d =
     (case toString_loop (top_pos d) 0 (cards d) of
        Inl e \<Rightarrow> Inl e
      | Inr ms \<Rightarrow> Inr (join ''-'' ms))"

section \<open>Predicates of the properties\<close>

text \<open>
  A card is a parsed one when parsing its mnemonic gives the card back.  Every card the
  class creates is one: the constructor's cards come from \<open>fromString\<close> or
  \<open>initStandard52\<close>.
\<close>

definition parsed_card :: "Card \<Rightarrow> bool" where
  "parsed_card x \<longleftrightarrow> fromString (mnemonic x) = Inr x"

text \<open>The token \<open>toString\<close> writes for the card at index \<open>i\<close> when the cursor is \<open>t\<close>.\<close>

definition token :: "int \<Rightarrow> nat \<Rightarrow> Card \<Rightarrow> string" where
  "token t i c = (if int i = t then ''['' @ mnemonic c @ '']'' else mnemonic c)"




text \<open>
  Where the shuffle can read and write: the elements, and the properties under the keys
  \<open>-1\<close> down to \<open>-length\<close> (the remainder by \<open>i + 1\<close> lies strictly between \<open>-(i + 1)\<close> and
  \<open>i + 1\<close>).  \<open>defined\<close> drops the \<open>undefined\<close> entries.
\<close>

definition neg_keys :: "nat \<Rightarrow> int list" where
  "neg_keys n = map (\<lambda>k. - int (Suc k)) [0..<n]"

definition slots :: "Deck \<Rightarrow> Card option list" where
  "slots d = map (cards_neg d) (neg_keys (length (cards d))) @ cards d"

definition defined :: "Card option list \<Rightarrow> Card list" where
  "defined cs = concat (map (\<lambda>c. case c of None \<Rightarrow> [] | Some x \<Rightarrow> [x]) cs)"

text \<open>
  Two invariants of the object.  \<open>deck_sound\<close>: 52 elements, every card in a slot is a
  parsed one, and the hash is the hash of the order whenever no element is \<open>undefined\<close>.
  \<open>holds_deck\<close>: 52 elements, and the cards in the slots are the 52 cards, each pair once.
\<close>

definition deck_sound :: "(string \<Rightarrow> string) \<Rightarrow> Deck \<Rightarrow> bool" where
  "deck_sound H d \<longleftrightarrow>
     length (cards d) = 52 \<and> list_all parsed_card (defined (slots d)) \<and>
     (case those (cards d) of
        None \<Rightarrow> True
      | Some xs \<Rightarrow> hash d = H (join ''-'' (map mnemonic xs)))"


text \<open>
  The states an object can be in: \<open>reaches H d0 d\<close> when \<open>d\<close> comes from \<open>d0\<close> by calls of
  \<open>shuffle\<close>, \<open>getNext\<close> and \<open>deal\<close>, returning or throwing.
\<close>

inductive reaches :: "(string \<Rightarrow> string) \<Rightarrow> Deck \<Rightarrow> Deck \<Rightarrow> bool"
  for H :: "string \<Rightarrow> string" and d0 :: Deck where
  start: "reaches H d0 d0"
| after_shuffle: "reaches H d0 d \<Longrightarrow> shuffle H rnd seed d = (e, d') \<Longrightarrow> reaches H d0 d'"
| after_getNext: "reaches H d0 d \<Longrightarrow> getNext d = (c, d') \<Longrightarrow> reaches H d0 d'"
| after_deal: "reaches H d0 d \<Longrightarrow> deal n d = (cs, d') \<Longrightarrow> reaches H d0 d'"


section \<open>The mnemonic codec: lemmas\<close>

lemma rank_cases:
  "1 \<le> r \<Longrightarrow> r \<le> 13 \<Longrightarrow> r \<in> set [1, 2, 3, 4, 5, 6, 7, 8, 9, 10, 11, 12, 13::int]"
  by simp presburger

lemma fromString_mnemonic: "fromString m = Inr c \<Longrightarrow> mnemonic c = m"
  by (auto simp: fromString_def Let_def split: option.splits prod.splits)

lemma fromString_standard_closed:
  "list_all (\<lambda>s. list_all (\<lambda>r. fromString (getCardMnemonic s r) = Inr (standard_card s r))
      [1, 2, 3, 4, 5, 6, 7, 8, 9, 10, 11, 12, 13])
      [CLUBS, DIAMONDS, HEARTS, SPADES]"
  by code_simp

lemma fromString_getCardMnemonic:
  assumes "1 \<le> r" "r \<le> 13"
  shows "fromString (getCardMnemonic s r) = Inr (standard_card s r)"
proof -
  have "r \<in> set [1, 2, 3, 4, 5, 6, 7, 8, 9, 10, 11, 12, 13::int]"
    using assms by (rule rank_cases)
  moreover have "s \<in> set [CLUBS, DIAMONDS, HEARTS, SPADES]"
    by (cases s) simp_all
  ultimately show ?thesis
    using fromString_standard_closed unfolding list_all_iff by blast
qed

lemma suit_of_char_upper_closed:
  "list_all (\<lambda>c. suit_of_char (toUpperCase [c]) \<noteq> None) ''CDHScdhs''"
  by code_simp

lemma suit_letter_upper:
  "is_suit_letter c \<Longrightarrow> suit_of_char (toUpperCase [c]) \<noteq> None"
  using suit_of_char_upper_closed unfolding is_suit_letter_def list_all_iff by blast

lemma match_parts:
  assumes "mnemonic_match m = Some p"
  shows "m \<noteq> []" "is_suit_letter (last m)"
    "list_all is_digit (butlast m) \<or> (length (butlast m) = 1 \<and> is_rank_letter (hd (butlast m)))"
    "p = (butlast m, [last m])"
  using assms by (auto simp: mnemonic_match_def Let_def split: if_splits)

lemma fromString_Inr_iff:
  "(\<exists>c. fromString m = Inr c) \<longleftrightarrow> mnemonic_match m \<noteq> None"
proof (cases "mnemonic_match m")
  case None
  then show ?thesis by (simp add: fromString_def)
next
  case (Some p)
  note mp = match_parts [OF Some]
  from suit_letter_upper [OF mp(2)] obtain s where "suit_of_char (toUpperCase [last m]) = Some s"
    by auto
  with Some mp(4) show ?thesis
    by (simp add: fromString_def Let_def)
qed

lemma fromString_no_match:
  "mnemonic_match m = None \<Longrightarrow> fromString m = Inl (InvalidMnemonic m)"
  by (simp add: fromString_def)

lemma allowed_not_special:
  "is_digit c \<or> is_rank_letter c \<or> is_suit_letter c \<Longrightarrow>
     c \<noteq> CHR ''-'' \<and> c \<noteq> CHR ''['' \<and> c \<noteq> CHR '']''"
  unfolding is_digit_def is_rank_letter_def is_suit_letter_def by auto

lemma match_allowed:
  assumes "mnemonic_match m = Some p" "c \<in> set m"
  shows "is_digit c \<or> is_rank_letter c \<or> is_suit_letter c"
proof -
  note mp = match_parts [OF assms(1)]
  have "butlast m @ [last m] = m"
    using mp(1) by simp
  then have "set m = set (butlast m) \<union> {last m}"
    by (metis set_append list.set(1) list.set(2))
  with assms(2) have "c \<in> set (butlast m) \<or> c = last m" by auto
  then show ?thesis
  proof
    assume c: "c \<in> set (butlast m)"
    from mp(3) show ?thesis
    proof
      assume "list_all is_digit (butlast m)"
      with c show ?thesis by (simp add: list_all_iff)
    next
      assume "length (butlast m) = 1 \<and> is_rank_letter (hd (butlast m))"
      with c show ?thesis by (cases "butlast m") auto
    qed
  next
    assume "c = last m"
    with mp(2) show ?thesis by simp
  qed
qed

lemma eval_0C:
  "fromString ''0C'' = Inr \<lparr>suit = CLUBS, rank = 0, card_value = - 1, mnemonic = ''0C''\<rparr>"
  by code_simp

lemma eval_14C:
  "fromString ''14C'' = Inr \<lparr>suit = CLUBS, rank = 14, card_value = 13, mnemonic = ''14C''\<rparr>"
  by code_simp

lemma eval_AD: "standard_card DIAMONDS 1 = \<lparr>suit = DIAMONDS, rank = 1, card_value = 13, mnemonic = ''AD''\<rparr>"
  by code_simp

lemma eval_as:
  "fromString ''as'' = Inr \<lparr>suit = SPADES, rank = 1, card_value = 39, mnemonic = ''as''\<rparr>"
  by code_simp

lemma eval_AS: "getCardMnemonic SPADES 1 = ''AS''"
  by code_simp

text \<open>
  C3 (the code departs from the claim).  The claim: \<open>fromString\<close> fails with the
  invalid-mnemonic error whenever the numeral denotes a rank outside 1..13, as for "0C" and
  "14C".  The code has no range check: "0C" parses to a card of rank 0 and value -1, and
  "14C" to a card of rank 14 whose value 13 is the value of the ace of diamonds.
\<close>

theorem fromString_accepts_out_of_range:
  "fromString ''0C'' = Inr \<lparr>suit = CLUBS, rank = 0, card_value = - 1, mnemonic = ''0C''\<rparr> \<and>
   fromString ''14C'' = Inr \<lparr>suit = CLUBS, rank = 14, card_value = 13, mnemonic = ''14C''\<rparr> \<and>
   card_value (standard_card DIAMONDS 1) = 13"
  by (simp add: eval_0C eval_14C eval_AD)

text \<open>
  C4.  For every suit and every rank from 1 to 13, parsing the mnemonic that
  \<open>getCardMnemonic\<close> builds gives the same suit and rank, the value
  \<open>13 * (suit - 1) + (rank - 1)\<close> and that very mnemonic; so building the mnemonic of the
  parsed card gives the string back.
\<close>

theorem decode_encode:
  assumes "1 \<le> r" "r \<le> 13"
  shows "\<exists>c. fromString (getCardMnemonic s r) = Inr c \<and> suit c = s \<and> rank c = r \<and>
           card_value c = 13 * (suit_num s - 1) + (r - 1) \<and>
           getCardMnemonic (suit c) (rank c) = getCardMnemonic s r"
  using fromString_getCardMnemonic [OF assms, of s] by (simp add: standard_card_def)

theorem decode_encode_witness:
  "(1::int) \<le> 10 \<and> (10::int) \<le> 13 \<and>
   (\<exists>c. fromString (getCardMnemonic HEARTS 10) = Inr c \<and> suit c = HEARTS \<and> rank c = 10 \<and>
        card_value c = 13 * (suit_num HEARTS - 1) + (10 - 1) \<and>
        getCardMnemonic (suit c) (rank c) = getCardMnemonic HEARTS 10)"
  using decode_encode [of 10 HEARTS] by simp

lemma eval_standard_AS:
  "standard_card SPADES 1 = \<lparr>suit = SPADES, rank = 1, card_value = 39, mnemonic = ''AS''\<rparr>"
  by code_simp

text \<open>
  C8 (the code departs from the claim).  The claim: the mnemonic of the card that
  \<open>fromString\<close> returns is the canonical encoding of its suit and rank, also for accepted
  spellings such as "as".  \<open>fromString\<close> turns the groups of the match to upper case to find
  the rank and the suit, and then stores the input string as it came: "as" gives the ace of
  spades with the mnemonic "as", where \<open>getCardMnemonic\<close> gives "AS" and \<open>initStandard52\<close>
  stores "AS" for the same card.
\<close>

theorem mnemonic_not_canonical:
  "fromString ''as'' = Inr \<lparr>suit = SPADES, rank = 1, card_value = 39, mnemonic = ''as''\<rparr> \<and>
   getCardMnemonic SPADES 1 = ''AS'' \<and>
   standard_card SPADES 1 = \<lparr>suit = SPADES, rank = 1, card_value = 39, mnemonic = ''AS''\<rparr> \<and>
   ''as'' \<noteq> ''AS''"
  by (simp add: eval_as eval_AS eval_standard_AS)

section \<open>Construction and dealing: lemmas\<close>

lemma those_map_Some: "those (map Some xs) = Some xs"
  by (induction xs) simp_all

lemma standard_mnemonics:
  "map mnemonic standard_cards =
    [''AC'', ''2C'', ''3C'', ''4C'', ''5C'', ''6C'', ''7C'', ''8C'', ''9C'', ''10C'', ''JC'', ''QC'', ''KC'',
     ''AD'', ''2D'', ''3D'', ''4D'', ''5D'', ''6D'', ''7D'', ''8D'', ''9D'', ''10D'', ''JD'', ''QD'', ''KD'',
     ''AH'', ''2H'', ''3H'', ''4H'', ''5H'', ''6H'', ''7H'', ''8H'', ''9H'', ''10H'', ''JH'', ''QH'', ''KH'',
     ''AS'', ''2S'', ''3S'', ''4S'', ''5S'', ''6S'', ''7S'', ''8S'', ''9S'', ''10S'', ''JS'', ''QS'', ''KS'']"
  by code_simp

lemma length_standard_cards: "length standard_cards = 52"
  by code_simp

lemma Deck_new_fresh:
  "Deck_new H None =
     Inr \<lparr>cards = map Some standard_cards, cards_neg = (\<lambda>k. None),
          hash = H (join ''-'' (map mnemonic standard_cards)),
          seedHash = ZERO_HASH, top_pos = 0\<rparr>"
  by (simp add: Deck_new_def initStandard52_def createHash_def finish_construction_def
      new_object_def those_map_Some)

lemma Deck_new_empty: "Deck_new H (Some []) = Deck_new H None"
  by (simp add: Deck_new_def)

text \<open>The cursor's additions are exact up to \<open>2^53\<close>; at \<open>2^53\<close> adding 1 changes nothing.\<close>

lemma js_add_exact: "\<bar>a + b\<bar> \<le> 2 ^ 53 \<Longrightarrow> js_add a b = a + b"
  by (simp add: js_add_def to_double_def Let_def nat_le_iff)

lemma bit_exponent_54: "bit_exponent 9007199254740993 = 53"
  by (simp add: bit_exponent.simps)

lemma js_add_stuck_num: "js_add 9007199254740992 1 = 9007199254740992"
  by (simp add: js_add_def to_double_def Let_def bit_exponent_54)

lemma js_add_stuck: "js_add (2 ^ 53) 1 = 2 ^ 53"
  using js_add_stuck_num by simp

lemma getNext_times_state: "\<exists>t. snd (getNext_times n d) = d\<lparr>top_pos := t\<rparr>"
proof (induction n arbitrary: d)
  case 0
  have "d = d\<lparr>top_pos := top_pos d\<rparr>" by simp
  then show ?case by (metis getNext_times.simps(1) snd_conv)
next
  case (Suc n)
  define d1 where "d1 = d\<lparr>top_pos := js_add (top_pos d) 1\<rparr>"
  from Suc.IH [of d1] obtain t where "snd (getNext_times n d1) = d1\<lparr>top_pos := t\<rparr>" ..
  then have "snd (getNext_times (Suc n) d) = d\<lparr>top_pos := t\<rparr>"
    by (simp add: getNext_def d1_def case_prod_beta)
  then show ?case ..
qed

lemma getNext_times_eq:
  assumes "- (2 ^ 53) \<le> top_pos d" "top_pos d + int n \<le> 2 ^ 53"
  shows "getNext_times n d =
     (map (\<lambda>k. cards_read d (top_pos d + int k)) [0..<n], d\<lparr>top_pos := top_pos d + int n\<rparr>)"
  using assms
proof (induction n arbitrary: d)
  case 0
  then show ?case by simp
next
  case (Suc n)
  have e: "js_add (top_pos d) 1 = top_pos d + 1"
    using Suc.prems by (intro js_add_exact) simp
  define d1 where "d1 = d\<lparr>top_pos := top_pos d + 1\<rparr>"
  have "- (2 ^ 53) \<le> top_pos d1" "top_pos d1 + int n \<le> 2 ^ 53"
    using Suc.prems by (simp_all add: d1_def)
  note IH = Suc.IH [OF this]
  have "map (\<lambda>k. cards_read d (top_pos d + int k)) [0..<Suc n]
      = cards_read d (top_pos d) # map (\<lambda>k. cards_read d (top_pos d + 1 + int k)) [0..<n]"
    by (simp add: upt_conv_Cons map_Suc_upt [symmetric] add.assoc del: upt_Suc)
  then show ?case
    using IH by (simp add: getNext_def e d1_def cards_read_def add.assoc del: upt_Suc)
qed

text \<open>
  What \<open>deal\<close> computes: the cursor is moved by the amount first, and each of the calls of
  \<open>getNext\<close> moves it once more.
\<close>

lemma deal_eq:
  assumes "0 \<le> n" "n < 2 ^ 32" "- (2 ^ 53) \<le> top_pos d" "top_pos d + 2 * n \<le> 2 ^ 53"
  shows "deal n d =
     (Inr (map (\<lambda>k. cards_read d (top_pos d + n + int k)) [0..<nat n]),
      d\<lparr>top_pos := top_pos d + 2 * n\<rparr>)"
proof -
  have e: "js_add (top_pos d) n = top_pos d + n"
    using assms by (intro js_add_exact) simp
  have l: "ToLength n = nat n"
    using assms by (simp add: ToLength_def min_def)
  have b: "\<not> (2 ^ 32 :: nat) \<le> nat n"
    using assms by (simp add: nat_le_iff)
  define d1 where "d1 = d\<lparr>top_pos := top_pos d + n\<rparr>"
  have "- (2 ^ 53) \<le> top_pos d1" "top_pos d1 + int (nat n) \<le> 2 ^ 53"
    using assms by (simp_all add: d1_def)
  from getNext_times_eq [OF this] have "getNext_times (nat n) d1 =
     (map (\<lambda>k. cards_read d (top_pos d + n + int k)) [0..<nat n],
      d\<lparr>top_pos := top_pos d + 2 * n\<rparr>)"
    using assms by (simp add: d1_def cards_read_def)
  then show ?thesis
    using b by (simp add: deal_def Let_def e l d1_def)
qed

lemma deal_state: "\<exists>t. snd (deal n d) = d\<lparr>top_pos := t\<rparr>"
proof -
  define d1 where "d1 = d\<lparr>top_pos := js_add (top_pos d) n\<rparr>"
  from getNext_times_state [of "ToLength n" d1]
  obtain t where t: "snd (getNext_times (ToLength n) d1) = d1\<lparr>top_pos := t\<rparr>" ..
  show ?thesis
  proof (cases "(2 ^ 32 :: nat) \<le> ToLength n")
    case True
    then have "snd (deal n d) = d\<lparr>top_pos := js_add (top_pos d) n\<rparr>"
      by (simp add: deal_def Let_def)
    then show ?thesis ..
  next
    case False
    then have "snd (deal n d) = d\<lparr>top_pos := t\<rparr>"
      using t by (simp add: deal_def Let_def d1_def case_prod_beta)
    then show ?thesis ..
  qed
qed

lemma getNext_state: "\<exists>t. snd (getNext d) = d\<lparr>top_pos := t\<rparr>"
  unfolding getNext_def by (rule exI [of _ "js_add (top_pos d) 1"]) simp

lemma read_standard:
  assumes "cards d = map Some standard_cards" "k < 52"
  shows "map_option mnemonic (cards_read d (int k)) = Some (map mnemonic standard_cards ! k)"
  using assms by (simp add: cards_read_def length_standard_cards)

lemma upt_5: "[0..<5] = [0, 1, 2, 3, 4]"
  by (simp add: upt_rec)

text \<open>
  C1 (the code departs from the claim).  The claim: \<open>deal(n)\<close> returns the cards that \<open>n\<close>
  calls of \<open>getNext\<close> would return and advances the cursor by \<open>n\<close>.  On a new deck,
  \<open>deal(5)\<close> returns the cards at the positions 5 to 9 and leaves the cursor at 10, where
  five calls of \<open>getNext\<close> return the cards at the positions 0 to 4 and leave it at 5.
\<close>

theorem deal_skips_cards:
  "(case Deck_new H None of
      Inl e \<Rightarrow> False
    | Inr d \<Rightarrow>
        (case fst (deal 5 d) of
           Inl e \<Rightarrow> False
         | Inr cs \<Rightarrow>
             map (map_option mnemonic) cs
               = [Some ''6C'', Some ''7C'', Some ''8C'', Some ''9C'', Some ''10C'']) \<and>
        top_pos (snd (deal 5 d)) = 10 \<and>
        map (map_option mnemonic) (fst (getNext_times 5 d))
          = [Some ''AC'', Some ''2C'', Some ''3C'', Some ''4C'', Some ''5C''] \<and>
        top_pos (snd (getNext_times 5 d)) = 5)"
proof -
  define d where "d = \<lparr>cards = map Some standard_cards, cards_neg = (\<lambda>k. None),
          hash = H (join ''-'' (map mnemonic standard_cards)),
          seedHash = ZERO_HASH, top_pos = 0\<rparr>"
  have c: "cards d = map Some standard_cards" and t: "top_pos d = 0"
    by (simp_all add: d_def)
  have r: "\<And>k. k < 52 \<Longrightarrow>
      map_option mnemonic (cards_read d (int k)) = Some (map mnemonic standard_cards ! k)"
    using c by (rule read_standard)
  define dealt where "dealt = map (\<lambda>k. cards_read d (int (5 + k))) [0..<5]"
  define drawn where "drawn = map (\<lambda>k. cards_read d (int k)) [0..<5]"
  have de: "deal 5 d = (Inr dealt, d\<lparr>top_pos := 10\<rparr>)"
    using deal_eq [of 5 d] by (simp add: t dealt_def del: upt_Suc)
  have ge: "getNext_times 5 d = (drawn, d\<lparr>top_pos := 5\<rparr>)"
    using getNext_times_eq [of d 5] by (simp add: t drawn_def del: upt_Suc)
  have 1: "map (map_option mnemonic) dealt
      = [Some ''6C'', Some ''7C'', Some ''8C'', Some ''9C'', Some ''10C'']"
    unfolding dealt_def upt_5 using r [of 5] r [of 6] r [of 7] r [of 8] r [of 9]
    by (simp add: standard_mnemonics)
  have 2: "map (map_option mnemonic) drawn
      = [Some ''AC'', Some ''2C'', Some ''3C'', Some ''4C'', Some ''5C'']"
    unfolding drawn_def upt_5 using r [of 0] r [of 1] r [of 2] r [of 3] r [of 4]
    by (simp add: standard_mnemonics)
  show ?thesis
    unfolding Deck_new_fresh d_def [symmetric] by (simp add: de ge 1 2)
qed






text \<open>
  C10.  The constructor takes the empty string for an absent argument: it builds the
  standard deck, the 52 cards in canonical order with the cursor at 0, and does not fail.
\<close>

theorem Deck_new_empty_string:
  "Deck_new H (Some '''') = Deck_new H None \<and>
   Deck_new H (Some '''') =
     Inr \<lparr>cards = map Some standard_cards, cards_neg = (\<lambda>k. None),
          hash = H (join ''-'' (map mnemonic standard_cards)),
          seedHash = ZERO_HASH, top_pos = 0\<rparr> \<and>
   map mnemonic standard_cards =
    [''AC'', ''2C'', ''3C'', ''4C'', ''5C'', ''6C'', ''7C'', ''8C'', ''9C'', ''10C'', ''JC'', ''QC'', ''KC'',
     ''AD'', ''2D'', ''3D'', ''4D'', ''5D'', ''6D'', ''7D'', ''8D'', ''9D'', ''10D'', ''JD'', ''QD'', ''KD'',
     ''AH'', ''2H'', ''3H'', ''4H'', ''5H'', ''6H'', ''7H'', ''8H'', ''9H'', ''10H'', ''JH'', ''QH'', ''KH'',
     ''AS'', ''2S'', ''3S'', ''4S'', ''5S'', ''6S'', ''7S'', ''8S'', ''9S'', ''10S'', ''JS'', ''QS'', ''KS'']"
  using Deck_new_empty [of H] Deck_new_fresh [of H] standard_mnemonics by simp

text \<open>
  C5.  A seed that is given, not empty and not of length 52 makes \<open>shuffle\<close> throw the
  error that reports both lengths, and the object is left as it was: cards, hash, seed
  hash and cursor.
\<close>

theorem shuffle_seed_length:
  assumes "length (cards d) = 52" "seed \<noteq> []" "length seed \<noteq> 52"
  shows "shuffle H rnd (Some seed) d = (Some (SeedLengthMismatch (length seed) 52), d)"
  using assms by (simp add: shuffle_def)

theorem shuffle_seed_length_witness:
  "shuffle (\<lambda>s. s) (\<lambda>k. 0) (Some [1, 2, 3])
      \<lparr>cards = map Some standard_cards, cards_neg = (\<lambda>k. None), hash = [],
       seedHash = ZERO_HASH, top_pos = 0\<rparr>
    = (Some (SeedLengthMismatch 3 52),
       \<lparr>cards = map Some standard_cards, cards_neg = (\<lambda>k. None), hash = [],
        seedHash = ZERO_HASH, top_pos = 0\<rparr>)"
  using shuffle_seed_length [of "\<lparr>cards = map Some standard_cards, cards_neg = (\<lambda>k. None), hash = [],
       seedHash = ZERO_HASH, top_pos = 0\<rparr>" "[1, 2, 3]" "\<lambda>s. s" "\<lambda>k. 0"]
  by (simp add: length_standard_cards)

section \<open>Serialization: lemmas\<close>

lemma split_no_sep: "sep \<notin> set x \<Longrightarrow> split sep x = [x]"
  by (induction x) auto

lemma split_append_sep: "sep \<notin> set x \<Longrightarrow> split sep (x @ sep # r) = x # split sep r"
  by (induction x) auto

lemma split_join:
  "list_all (\<lambda>x. sep \<notin> set x) xs \<Longrightarrow> xs \<noteq> [] \<Longrightarrow> split sep (join [sep] xs) = xs"
proof (induction xs rule: induct_list012)
  case 1
  then show ?case by simp
next
  case (2 x)
  then show ?case by (simp add: split_no_sep)
next
  case (3 x y zs)
  then show ?case by (simp add: split_append_sep)
qed

lemma parsed_chars:
  assumes "fromString m = Inr c"
  shows "m \<noteq> []" "CHR ''-'' \<notin> set m" "hd m \<noteq> CHR ''[''"
proof -
  from assms fromString_Inr_iff [of m] obtain p where p: "mnemonic_match m = Some p"
    by auto
  show ne: "m \<noteq> []"
    using match_parts(1) [OF p] .
  show "CHR ''-'' \<notin> set m"
    using match_allowed [OF p] allowed_not_special by blast
  have "hd m \<in> set m"
    using ne by simp
  then show "hd m \<noteq> CHR ''[''"
    using match_allowed [OF p] allowed_not_special by blast
qed

lemma token_no_dash: "parsed_card c \<Longrightarrow> CHR ''-'' \<notin> set (token t i c)"
  using parsed_chars(2) [of "mnemonic c" c] by (simp add: token_def parsed_card_def)

lemma toString_loop_Some:
  "toString_loop t i (map Some cs) = Inr (map (\<lambda>(k, c). token t k c) (enumerate i cs))"
  by (induction cs arbitrary: i) (simp_all add: token_def)

lemma toString_loop_Inr:
  "toString_loop t i cs = Inr ms \<Longrightarrow> \<exists>xs. cs = map Some xs"
proof (induction cs arbitrary: i ms)
  case Nil
  then show ?case by simp
next
  case (Cons c cs)
  from Cons.prems obtain x ms' where c: "c = Some x" and r: "toString_loop t (Suc i) cs = Inr ms'"
    by (auto split: option.splits sum.splits)
  from Cons.IH [OF r] obtain xs where "cs = map Some xs" ..
  with c have "c # cs = map Some (x # xs)" by simp
  then show ?case ..
qed

lemma restore_loop_tokens:
  "list_all parsed_card cs \<Longrightarrow>
     restore_loop i (map (\<lambda>(k, c). token t k c) (enumerate i cs)) t0 acc
       = Inr (if int i \<le> t \<and> t < int i + int (length cs) then t else t0, acc @ map Some cs)"
proof (induction cs arbitrary: i t0 acc)
  case Nil
  then show ?case by simp
next
  case (Cons c cs)
  from Cons.prems have pc: "fromString (mnemonic c) = Inr c"
    by (simp add: parsed_card_def)
  from Cons.prems have rest: "list_all parsed_card cs"
    by simp
  note IH = Cons.IH [OF rest]
  show ?case
  proof (cases "int i = t")
    case True
    have b: "bracketed (token t i c)"
      using True by (simp add: token_def bracketed_def)
    have s: "butlast (tl (token t i c)) = mnemonic c"
      using True by (simp add: token_def butlast_append)
    show ?thesis
      using True by (simp add: b s pc IH [of "Suc i"])
  next
    case False
    have nb: "\<not> bracketed (token t i c)"
      using False parsed_chars(3) [OF pc] by (simp add: token_def bracketed_def)
    have tk: "token t i c = mnemonic c"
      using False by (simp add: token_def)
    show ?thesis
      using False nb by (auto simp add: tk pc IH [of "Suc i"])
  qed
qed

lemma restore_loop_Inr:
  "restore_loop i ms t acc = Inr (t', cs) \<Longrightarrow>
     \<exists>new. cs = acc @ map Some new \<and> length new = length ms \<and> list_all parsed_card new"
proof (induction ms arbitrary: i t acc)
  case Nil
  then show ?case by simp
next
  case (Cons m ms)
  define m' where "m' = (if bracketed m then butlast (tl m) else m)"
  define t1 where "t1 = (if bracketed m then int i else t)"
  from Cons.prems obtain c where c: "fromString m' = Inr c"
    and r: "restore_loop (Suc i) ms t1 (acc @ [Some c]) = Inr (t', cs)"
    by (auto simp: Let_def m'_def t1_def split: sum.splits)
  from Cons.IH [OF r] obtain new where n: "cs = (acc @ [Some c]) @ map Some new"
    "length new = length ms" "list_all parsed_card new"
    by blast
  have "parsed_card c"
    using c fromString_mnemonic [OF c] by (simp add: parsed_card_def)
  with n have "cs = acc @ map Some (c # new) \<and> length (c # new) = length (m # ms)
      \<and> list_all parsed_card (c # new)"
    by simp
  then show ?case by blast
qed

text \<open>The state a successful construction from a string leaves.\<close>

lemma Deck_new_restore:
  assumes "Deck_new H (Some s) = Inr d" "s \<noteq> []"
  shows "\<exists>xs. cards d = map Some xs \<and> length xs = 52 \<and> list_all parsed_card xs \<and>
           cards_neg d = (\<lambda>k. None) \<and> hash d = H (join ''-'' (map mnemonic xs)) \<and>
           seedHash d = ZERO_HASH"
proof -
  from assms obtain t cs where len: "length (split (CHR ''-'') s) = 52"
    and r: "restore_loop 0 (split (CHR ''-'') s) 0 [] = Inr (t, cs)"
    and f: "finish_construction H (new_object\<lparr>cards := cs, top_pos := t\<rparr>) = Inr d"
    by (auto simp: Deck_new_def Let_def split: if_splits sum.splits)
  from restore_loop_Inr [OF r] len obtain xs where xs: "cs = map Some xs" "length xs = 52"
    "list_all parsed_card xs"
    by auto
  from f xs show ?thesis
    by (auto simp: finish_construction_def createHash_def new_object_def those_map_Some)
qed

text \<open>
  The round trip through \<open>toString\<close> and the constructor, for a deck of 52 parsed cards:
  the cards come back; the cursor comes back when it indexes a card, and is 0 otherwise.
\<close>

lemma roundtrip:
  assumes c: "cards d = map Some xs" and len: "length xs = 52" and p: "list_all parsed_card xs"
  shows "\<exists>s. toString d = Inr s \<and>
           Deck_new H (Some s) =
             Inr \<lparr>cards = cards d, cards_neg = (\<lambda>k. None),
                  hash = H (join ''-'' (map mnemonic xs)), seedHash = ZERO_HASH,
                  top_pos = (if 0 \<le> top_pos d \<and> top_pos d < 52 then top_pos d else 0)\<rparr>"
proof -
  define toks where "toks = map (\<lambda>(k, c). token (top_pos d) k c) (enumerate 0 xs)"
  define s where "s = join ''-'' toks"
  have ts: "toString d = Inr s"
    by (simp add: toString_def c toString_loop_Some s_def toks_def)
  have lt: "length toks = 52"
    by (simp add: toks_def len)
  have "\<forall>x \<in> set toks. CHR ''-'' \<notin> set x"
    using p by (auto simp: toks_def list_all_iff token_no_dash in_set_enumerate_eq)
  then have nd: "list_all (\<lambda>x. CHR ''-'' \<notin> set x) toks"
    by (simp add: list_all_iff)
  have ne: "toks \<noteq> []"
    using lt by auto
  have sp: "split (CHR ''-'') s = toks"
    unfolding s_def using split_join [OF nd ne] by simp
  have sne: "s \<noteq> []"
  proof
    assume "s = []"
    with sp have "toks = [[]]" by simp
    with lt show False by simp
  qed
  have rl: "restore_loop 0 toks 0 [] =
      Inr (if 0 \<le> top_pos d \<and> top_pos d < 52 then top_pos d else 0, map Some xs)"
    unfolding toks_def using restore_loop_tokens [OF p, of 0 "top_pos d" 0 "[]"] len by simp
  have "Deck_new H (Some s) =
             Inr \<lparr>cards = cards d, cards_neg = (\<lambda>k. None),
                  hash = H (join ''-'' (map mnemonic xs)), seedHash = ZERO_HASH,
                  top_pos = (if 0 \<le> top_pos d \<and> top_pos d < 52 then top_pos d else 0)\<rparr>"
    using sne by (simp add: Deck_new_def sp lt rl finish_construction_def createHash_def
        new_object_def those_map_Some c)
  with ts show ?thesis by blast
qed

section \<open>The shuffle: lemmas\<close>

lemma js_rem_bounds:
  assumes "0 < b"
  shows "- b < js_rem a b" "js_rem a b < b"
proof -
  have m: "0 \<le> \<bar>a\<bar> mod \<bar>b\<bar>" "\<bar>a\<bar> mod \<bar>b\<bar> < b"
    using assms by simp_all
  show "- b < js_rem a b"
    using m by (cases "a < 0"; cases "a = 0") (simp_all add: js_rem_def)
  show "js_rem a b < b"
    using m by (cases "a < 0"; cases "a = 0") (simp_all add: js_rem_def)
qed


lemma distinct_neg_keys: "distinct (neg_keys n)"
  by (simp add: neg_keys_def distinct_map inj_on_def)

lemma set_neg_keys: "set (neg_keys n) = {j. - int n \<le> j \<and> j < 0}"
proof (rule set_eqI)
  fix j :: int
  have "j \<in> set (neg_keys n) \<longleftrightarrow> (\<exists>k < n. j = - int (Suc k))"
    by (auto simp: neg_keys_def)
  also have "\<dots> \<longleftrightarrow> - int n \<le> j \<and> j < 0"
  proof
    assume "\<exists>k < n. j = - int (Suc k)"
    then show "- int n \<le> j \<and> j < 0" by auto
  next
    assume a: "- int n \<le> j \<and> j < 0"
    then have "nat (- j) - 1 < n" "j = - int (Suc (nat (- j) - 1))"
      by auto
    then show "\<exists>k < n. j = - int (Suc k)" by blast
  qed
  finally show "j \<in> set (neg_keys n) \<longleftrightarrow> j \<in> {j. - int n \<le> j \<and> j < 0}"
    by simp
qed

lemma mset_map_fun_upd:
  "distinct ks \<Longrightarrow> j \<in> set ks \<Longrightarrow>
     mset (map (f(j := v)) ks) = add_mset v (mset (map f ks) - {#f j#})"
proof (induction ks)
  case Nil
  then show ?case by simp
next
  case (Cons k ks)
  show ?case
  proof (cases "k = j")
    case True
    with Cons.prems have "j \<notin> set ks" by simp
    then have e: "map (f(j := v)) (k # ks) = v # map f ks"
      using True by auto
    show ?thesis
      unfolding e using True by simp
  next
    case False
    with Cons.prems have j: "j \<in> set ks" and d: "distinct ks" by simp_all
    then have "f j \<in># mset (map f ks)" by simp
    then show ?thesis
      using False Cons.IH [OF d j] by (simp add: add_mset_commute)
  qed
qed

text \<open>One pass of the loop body keeps the length and moves cards between slots only.\<close>

lemma swap_step:
  assumes i: "i < length (cards d)" and j: "- int (length (cards d)) \<le> j" "j \<le> int i"
  defines "d' \<equiv> cards_write (cards_write d (int i) (cards_read d j)) j (cards_read d (int i))"
  shows "length (cards d') = length (cards d)" "mset (slots d') = mset (slots d)"
    "hash d' = hash d" "seedHash d' = seedHash d" "top_pos d' = top_pos d"
proof -
  show "length (cards d') = length (cards d)" "hash d' = hash d" "seedHash d' = seedHash d"
    "top_pos d' = top_pos d"
    by (simp_all add: d'_def cards_write_def)
  show "mset (slots d') = mset (slots d)"
  proof (cases "j < 0")
    case False
    then have jl: "nat j < length (cards d)" and jl': "j < int (length (cards d))"
      using i j by simp_all
    have c: "cards d' = (cards d)[i := cards d ! nat j, nat j := cards d ! i]"
      and n: "cards_neg d' = cards_neg d"
      using False i jl' by (simp_all add: d'_def cards_write_def cards_read_def)
    have "mset (cards d') = mset (cards d)"
      unfolding c using mset_swap [OF jl i] .
    then show ?thesis
      by (simp add: slots_def c n)
  next
    case True
    have c: "cards d' = (cards d)[i := cards_neg d j]"
      and n: "cards_neg d' = (cards_neg d)(j := cards d ! i)"
      using True i by (simp_all add: d'_def cards_write_def cards_read_def)
    have jk: "j \<in> set (neg_keys (length (cards d)))"
      using True j by (simp add: set_neg_keys)
    have 1: "mset (cards d') = add_mset (cards_neg d j) (mset (cards d) - {#cards d ! i#})"
      unfolding c using i by (rule mset_update)
    have 2: "mset (map (cards_neg d') (neg_keys (length (cards d))))
        = add_mset (cards d ! i) (mset (map (cards_neg d) (neg_keys (length (cards d))))
            - {#cards_neg d j#})"
      unfolding n using distinct_neg_keys jk by (rule mset_map_fun_upd)
    have 3: "cards d ! i \<in># mset (cards d)"
      using i by simp
    have 4: "cards_neg d j \<in># mset (map (cards_neg d) (neg_keys (length (cards d))))"
      using jk by simp
    have l: "length (cards d') = length (cards d)"
      by (simp add: c)
    define N where "N = mset (map (cards_neg d) (neg_keys (length (cards d))))"
    define C where "C = mset (cards d)"
    have "add_mset (cards d ! i) (N - {#cards_neg d j#}) + add_mset (cards_neg d j) (C - {#cards d ! i#})
        = add_mset (cards_neg d j) (N - {#cards_neg d j#}) + add_mset (cards d ! i) (C - {#cards d ! i#})"
      by simp
    also have "\<dots> = N + C"
      using 3 4 by (simp only: insert_DiffM N_def C_def)
    finally show ?thesis
      unfolding slots_def l mset_append 1 2 N_def C_def .
  qed
qed

lemma shuffle_loop_keeps:
  "k \<le> length (cards d) - 1 \<Longrightarrow>
     length (cards (shuffle_loop seed k d)) = length (cards d) \<and>
     mset (slots (shuffle_loop seed k d)) = mset (slots d) \<and>
     hash (shuffle_loop seed k d) = hash d \<and>
     seedHash (shuffle_loop seed k d) = seedHash d \<and>
     top_pos (shuffle_loop seed k d) = top_pos d"
proof (induction k arbitrary: d)
  case 0
  then show ?case by simp
next
  case (Suc k)
  define j where "j = js_rem (seed ! Suc k) (int (Suc k) + 1)"
  define d1 where
    "d1 = cards_write (cards_write d (int (Suc k)) (cards_read d j)) j (cards_read d (int (Suc k)))"
  have i: "Suc k < length (cards d)"
    using Suc.prems by simp
  have jb: "- int (length (cards d)) \<le> j" "j \<le> int (Suc k)"
    using js_rem_bounds [of "int (Suc k) + 1" "seed ! Suc k"] i by (simp_all add: j_def)
  note st = swap_step [OF i jb, folded d1_def]
  have "k \<le> length (cards d1) - 1"
    using i st(1) by simp
  from Suc.IH [OF this] st have "length (cards (shuffle_loop seed k d1)) = length (cards d) \<and>
     mset (slots (shuffle_loop seed k d1)) = mset (slots d) \<and>
     hash (shuffle_loop seed k d1) = hash d \<and>
     seedHash (shuffle_loop seed k d1) = seedHash d \<and>
     top_pos (shuffle_loop seed k d1) = top_pos d"
    by simp
  moreover have "shuffle_loop seed (Suc k) d = shuffle_loop seed k d1"
    by (simp add: Let_def d1_def j_def)
  ultimately show ?case by simp
qed


lemma those_None_iff: "those cs = None \<longleftrightarrow> None \<in> set cs"
  by (induction cs) (auto split: option.splits)

lemma defined_append: "defined (xs @ ys) = defined xs @ defined ys"
  by (simp add: defined_def)

lemma defined_map_Some: "defined (map Some xs) = xs"
  by (induction xs) (simp_all add: defined_def)

lemma defined_Nones: "defined (map (\<lambda>k. None) ks) = []"
  by (induction ks) (simp_all add: defined_def)

lemma mset_defined:
  "mset (defined cs) = image_mset the (filter_mset (\<lambda>c. c \<noteq> None) (mset cs))"
proof (induction cs)
  case Nil
  then show ?case by (simp add: defined_def)
next
  case (Cons c cs)
  then show ?case by (cases c) (simp_all add: defined_def)
qed

lemma mset_defined_cong: "mset cs = mset cs' \<Longrightarrow> mset (defined cs) = mset (defined cs')"
  by (simp add: mset_defined)



lemma parsed_standard_cards: "list_all parsed_card standard_cards"
  by code_simp

lemma slots_update [simp]:
  "slots (d\<lparr>hash := h\<rparr>) = slots d"
  "slots (d\<lparr>seedHash := sh\<rparr>) = slots d"
  "slots (d\<lparr>top_pos := t\<rparr>) = slots d"
  by (simp_all add: slots_def)

text \<open>The two ways \<open>createHash\<close> and \<open>shuffle\<close> can end.\<close>

lemma createHash_cases:
  assumes "createHash H d = (e, d')"
  shows "(e = Some TypeError \<and> d' = d \<and> those (cards d) = None) \<or>
         (\<exists>xs. e = None \<and> those (cards d) = Some xs \<and>
               d' = d\<lparr>hash := H (join ''-'' (map mnemonic xs))\<rparr>)"
  using assms by (auto simp: createHash_def split: option.splits)

lemma shuffle_cases:
  assumes "shuffle H rnd seed0 d = (e, d')"
  shows "(\<exists>n. e = Some (SeedLengthMismatch n (length (cards d))) \<and> d' = d) \<or>
         (\<exists>seed. length seed = length (cards d) \<and>
            createHash H (shuffle_loop seed (length (cards d) - 1)
               (d\<lparr>seedHash := H (join ''-'' (map number_toString seed))\<rparr>)) = (e, d'))"
proof -
  define seed where "seed = (if seed0 = None \<or> seed0 = Some []
                  then map (\<lambda>k. int (rnd k)) [0..<length (cards d)]
                  else the seed0)"
  have u: "shuffle H rnd seed0 d =
     (if length seed \<noteq> length (cards d)
      then (Some (SeedLengthMismatch (length seed) (length (cards d))), d)
      else createHash H (shuffle_loop seed (length (cards d) - 1)
             (d\<lparr>seedHash := H (join ''-'' (map number_toString seed))\<rparr>)))"
    unfolding shuffle_def Let_def seed_def by simp
  show ?thesis
  proof (cases "length seed = length (cards d)")
    case True
    with assms u have "createHash H (shuffle_loop seed (length (cards d) - 1)
             (d\<lparr>seedHash := H (join ''-'' (map number_toString seed))\<rparr>)) = (e, d')"
      by simp
    with True show ?thesis by blast
  next
    case False
    with assms u have "e = Some (SeedLengthMismatch (length seed) (length (cards d))) \<and> d' = d"
      by auto
    then show ?thesis by blast
  qed
qed

lemma shuffle_keeps:
  assumes "shuffle H rnd seed0 d = (e, d')"
  shows "length (cards d') = length (cards d)" "mset (slots d') = mset (slots d)"
    "top_pos d' = top_pos d"
    "those (cards d') = None \<or> d' = d \<or>
       (\<exists>xs. e = None \<and> those (cards d') = Some xs \<and> hash d' = H (join ''-'' (map mnemonic xs)))"
    "e = None \<Longrightarrow> those (cards d') \<noteq> None"
proof -
  from shuffle_cases [OF assms]
  have "length (cards d') = length (cards d) \<and> mset (slots d') = mset (slots d) \<and>
    top_pos d' = top_pos d \<and>
    (those (cards d') = None \<or> d' = d \<or>
       (\<exists>xs. e = None \<and> those (cards d') = Some xs \<and> hash d' = H (join ''-'' (map mnemonic xs)))) \<and>
    (e = None \<longrightarrow> those (cards d') \<noteq> None)"
  proof
    assume "\<exists>n. e = Some (SeedLengthMismatch n (length (cards d))) \<and> d' = d"
    then show ?thesis by auto
  next
    assume "\<exists>seed. length seed = length (cards d) \<and>
            createHash H (shuffle_loop seed (length (cards d) - 1)
               (d\<lparr>seedHash := H (join ''-'' (map number_toString seed))\<rparr>)) = (e, d')"
    then obtain seed where ch: "createHash H (shuffle_loop seed (length (cards d) - 1)
               (d\<lparr>seedHash := H (join ''-'' (map number_toString seed))\<rparr>)) = (e, d')"
      by blast
    define d1 where "d1 = d\<lparr>seedHash := H (join ''-'' (map number_toString seed))\<rparr>"
    define d2 where "d2 = shuffle_loop seed (length (cards d) - 1) d1"
    have "length (cards d) - 1 \<le> length (cards d1) - 1"
      by (simp add: d1_def)
    from shuffle_loop_keeps [OF this, of seed]
    have k: "length (cards d2) = length (cards d)" "mset (slots d2) = mset (slots d)"
      "top_pos d2 = top_pos d"
      by (simp_all add: d2_def d1_def)
    from createHash_cases [OF ch [folded d1_def, folded d2_def]] k show ?thesis
      by auto
  qed
  then show "length (cards d') = length (cards d)" "mset (slots d') = mset (slots d)"
    "top_pos d' = top_pos d"
    "those (cards d') = None \<or> d' = d \<or>
       (\<exists>xs. e = None \<and> those (cards d') = Some xs \<and> hash d' = H (join ''-'' (map mnemonic xs)))"
    "e = None \<Longrightarrow> those (cards d') \<noteq> None"
    by simp_all
qed

text \<open>The invariants are kept by every call.\<close>

lemma deck_sound_shuffle:
  assumes "deck_sound H d" "shuffle H rnd seed0 d = (e, d')"
  shows "deck_sound H d'"
proof -
  note k = shuffle_keeps [OF assms(2)]
  have "mset (defined (slots d')) = mset (defined (slots d))"
    using k(2) by (rule mset_defined_cong)
  then have "set (defined (slots d')) = set (defined (slots d))"
    by (rule mset_eq_setD)
  then have p: "list_all parsed_card (defined (slots d'))"
    using assms(1) by (simp add: deck_sound_def list_all_iff)
  from k(4) have "case those (cards d') of None \<Rightarrow> True
      | Some xs \<Rightarrow> hash d' = H (join ''-'' (map mnemonic xs))"
    using assms(1) by (auto simp: deck_sound_def split: option.splits)
  with p k(1) assms(1) show ?thesis
    by (simp add: deck_sound_def)
qed


lemma deck_sound_top: "deck_sound H (d\<lparr>top_pos := t\<rparr>) = deck_sound H d"
  by (simp add: deck_sound_def cong: option.case_cong)


lemma reaches_sound:
  assumes "reaches H d0 d" "deck_sound H d0"
  shows "deck_sound H d"
  using assms
proof (induction rule: reaches.induct)
  case start
  then show ?case .
next
  case (after_shuffle d rnd seed e d')
  then show ?case using deck_sound_shuffle by blast
next
  case (after_getNext d c d')
  then obtain t where "d' = d\<lparr>top_pos := t\<rparr>"
    using getNext_state [of d] by auto
  with after_getNext show ?case by (simp add: deck_sound_top)
next
  case (after_deal d n cs d')
  then obtain t where "d' = d\<lparr>top_pos := t\<rparr>"
    using deal_state [of n d] by auto
  with after_deal show ?case by (simp add: deck_sound_top)
qed


text \<open>What a constructor establishes.\<close>

lemma Deck_new_state:
  assumes "Deck_new H arg = Inr d"
  shows "\<exists>xs. cards d = map Some xs \<and> length xs = 52 \<and> list_all parsed_card xs \<and>
           cards_neg d = (\<lambda>k. None) \<and> hash d = H (join ''-'' (map mnemonic xs)) \<and>
           seedHash d = ZERO_HASH"
proof (cases "arg = None \<or> arg = Some []")
  case True
  then have "Deck_new H arg = Deck_new H None"
    using Deck_new_empty by auto
  with assms Deck_new_fresh [of H] have "d = \<lparr>cards = map Some standard_cards,
      cards_neg = (\<lambda>k. None), hash = H (join ''-'' (map mnemonic standard_cards)),
      seedHash = ZERO_HASH, top_pos = 0\<rparr>"
    by simp
  then show ?thesis
    using length_standard_cards parsed_standard_cards by auto
next
  case False
  then obtain s where "arg = Some s" "s \<noteq> []" by auto
  with assms Deck_new_restore show ?thesis by blast
qed

lemma slots_constructed:
  assumes "cards d = map Some xs" "cards_neg d = (\<lambda>k. None)"
  shows "defined (slots d) = xs"
  using assms by (simp add: slots_def defined_append defined_Nones defined_map_Some)

lemma Deck_new_sound:
  assumes "Deck_new H arg = Inr d"
  shows "deck_sound H d"
proof -
  from Deck_new_state [OF assms] obtain xs where xs: "cards d = map Some xs" "length xs = 52"
    "list_all parsed_card xs" "cards_neg d = (\<lambda>k. None)"
    "hash d = H (join ''-'' (map mnemonic xs))"
    by blast
  then show ?thesis
    by (simp add: deck_sound_def slots_constructed [OF xs(1) xs(4)] those_map_Some)
qed






text \<open>The rest of the loop leaves the elements above its index alone.\<close>

lemma shuffle_loop_above:
  "k < p \<Longrightarrow> cards (shuffle_loop seed k d) ! p = cards d ! p"
proof (induction k arbitrary: d)
  case 0
  then show ?case by simp
next
  case (Suc k)
  define j where "j = js_rem (seed ! Suc k) (int (Suc k) + 1)"
  define d1 where
    "d1 = cards_write (cards_write d (int (Suc k)) (cards_read d j)) j (cards_read d (int (Suc k)))"
  have "j < int (Suc k) + 1"
    unfolding j_def by (rule js_rem_bounds) simp
  then have "j < int p"
    using Suc.prems by simp
  then have "cards d1 ! p = cards d ! p"
    using Suc.prems by (auto simp: d1_def cards_write_def)
  moreover have "shuffle_loop seed (Suc k) d = shuffle_loop seed k d1"
    by (simp add: Let_def d1_def j_def)
  ultimately show ?case
    using Suc.IH [of d1] Suc.prems by simp
qed

lemma shuffle_first_negative:
  assumes l: "length (cards d) = 52" "length seed = 52" "seed \<noteq> []"
    and j: "js_rem (seed ! 51) 52 < 0" "cards_neg d (js_rem (seed ! 51) 52) = None"
  shows "fst (shuffle H rnd (Some seed) d) = Some TypeError"
    "cards (snd (shuffle H rnd (Some seed) d)) ! 51 = None"
proof -
  define d1 where "d1 = d\<lparr>seedHash := H (join ''-'' (map number_toString seed))\<rparr>"
  define d2 where "d2 = cards_write (cards_write d1 51 (cards_read d1 (js_rem (seed ! 51) 52)))
      (js_rem (seed ! 51) 52) (cards_read d1 51)"
  define d3 where "d3 = shuffle_loop seed 50 d2"
  have "shuffle_loop seed 51 d1 = shuffle_loop seed (Suc 50) d1"
    by simp
  also have "\<dots> = d3"
    unfolding shuffle_loop.simps Let_def d3_def d2_def by simp
  finally have u: "shuffle H rnd (Some seed) d = createHash H d3"
    using l by (simp add: shuffle_def Let_def d1_def)
  have "cards d2 = (cards d)[51 := None]"
    using j by (simp add: d2_def d1_def cards_write_def cards_read_def)
  then have "cards d2 ! 51 = None"
    using l by simp
  then have n: "cards d3 ! 51 = None"
    unfolding d3_def by (simp add: shuffle_loop_above)
  have "50 \<le> length (cards d2) - 1"
    using l by (simp add: d2_def d1_def cards_write_def)
  from shuffle_loop_keeps [OF this, of seed] have "length (cards d3) = 52"
    using l by (simp add: d3_def d2_def d1_def cards_write_def)
  then have "51 < length (cards d3)"
    by simp
  then have "cards d3 ! 51 \<in> set (cards d3)"
    by (rule nth_mem)
  with n have "None \<in> set (cards d3)"
    by simp
  then have "those (cards d3) = None"
    by (simp add: those_None_iff)
  then have "createHash H d3 = (Some TypeError, d3)"
    by (simp add: createHash_def)
  with u n show "fst (shuffle H rnd (Some seed) d) = Some TypeError"
    "cards (snd (shuffle H rnd (Some seed) d)) ! 51 = None"
    by simp_all
qed

section \<open>The round trip and the invariant of the cards\<close>



text \<open>
  C2 (amended).  The claim: for every deck and every cursor from 0 to 52, the deck
  constructed from \<open>toString()\<close> has the same cards, cursor and hash, also with the cursor
  at 52.  After 52 calls of \<open>getNext\<close> on a new deck the cursor is 52, \<open>toString\<close> brackets
  no token, and the deck constructed from the string has the same cards and the cursor 0.
\<close>

theorem restore_exhausted:
  "\<forall>H. (case Deck_new H None of
          Inl e \<Rightarrow> False
        | Inr d0 \<Rightarrow>
            (case getNext_times 52 d0 of
               (cs, d) \<Rightarrow>
                 top_pos d = 52 \<and>
                 (case toString d of
                    Inl e \<Rightarrow> False
                  | Inr s \<Rightarrow>
                      (case Deck_new H (Some s) of
                         Inl e \<Rightarrow> False
                       | Inr d' \<Rightarrow> cards d' = cards d \<and> top_pos d' = 0))))"
proof
  fix H
  define d where "d = \<lparr>cards = map Some standard_cards, cards_neg = (\<lambda>k. None),
          hash = H (join ''-'' (map mnemonic standard_cards)),
          seedHash = ZERO_HASH, top_pos = 52\<rparr>"
  have c: "cards d = map Some standard_cards" and t: "top_pos d = 52"
    by (simp_all add: d_def)
  from roundtrip [OF c length_standard_cards parsed_standard_cards, of H]
  obtain s where "toString d = Inr s"
    "Deck_new H (Some s) = Inr \<lparr>cards = cards d, cards_neg = (\<lambda>k. None),
        hash = H (join ''-'' (map mnemonic standard_cards)), seedHash = ZERO_HASH, top_pos = 0\<rparr>"
    by (auto simp: t)
  then show "case Deck_new H None of
          Inl e \<Rightarrow> False
        | Inr d0 \<Rightarrow>
            (case getNext_times 52 d0 of
               (cs, d) \<Rightarrow>
                 top_pos d = 52 \<and>
                 (case toString d of
                    Inl e \<Rightarrow> False
                  | Inr s \<Rightarrow>
                      (case Deck_new H (Some s) of
                         Inl e \<Rightarrow> False
                       | Inr d' \<Rightarrow> cards d' = cards d \<and> top_pos d' = 0)))"
    by (simp add: Deck_new_fresh getNext_times_eq d_def [symmetric] t)
qed

text \<open>
  C2 as amended: for every deck, in any state the calls of \<open>shuffle\<close>, \<open>getNext\<close> and
  \<open>deal\<close> can bring a constructed deck to, on which \<open>toString\<close> returns: the deck
  constructed from the string has the same cards and the same hash; its cursor is that of
  the deck when this is from 0 to 51, and 0 when it is 52 or indexes no card otherwise;
  its seed hash is the zero hash.
\<close>

theorem restore_toString:
  assumes "Deck_new H arg = Inr d0" "reaches H d0 d" "toString d = Inr s"
  shows "\<exists>d'. Deck_new H (Some s) = Inr d' \<and> cards d' = cards d \<and> hash d' = hash d \<and>
           top_pos d' = (if 0 \<le> top_pos d \<and> top_pos d < 52 then top_pos d else 0) \<and>
           seedHash d' = ZERO_HASH"
proof -
  have ds: "deck_sound H d"
    using reaches_sound [OF assms(2) Deck_new_sound [OF assms(1)]] .
  from assms(3) obtain ms where "toString_loop (top_pos d) 0 (cards d) = Inr ms"
    by (auto simp: toString_def split: sum.splits)
  from toString_loop_Inr [OF this] obtain xs where c: "cards d = map Some xs" ..
  from ds have len: "length xs = 52"
    by (simp add: deck_sound_def c)
  have "set xs \<subseteq> set (defined (slots d))"
    by (simp add: slots_def defined_append c defined_map_Some)
  with ds have p: "list_all parsed_card xs"
    by (auto simp: deck_sound_def list_all_iff)
  from ds have h: "hash d = H (join ''-'' (map mnemonic xs))"
    by (simp add: deck_sound_def c those_map_Some)
  from roundtrip [OF c len p, of H] assms(3) h show ?thesis
    by auto
qed

lemma toString_second:
  "toString \<lparr>cards = map Some standard_cards, cards_neg = (\<lambda>k. None),
       hash = join ''-'' (map mnemonic standard_cards), seedHash = ZERO_HASH, top_pos = 1\<rparr>
     = Inr ''AC-[2C]-3C-4C-5C-6C-7C-8C-9C-10C-JC-QC-KC-AD-2D-3D-4D-5D-6D-7D-8D-9D-10D-JD-QD-KD-AH-2H-3H-4H-5H-6H-7H-8H-9H-10H-JH-QH-KH-AS-2S-3S-4S-5S-6S-7S-8S-9S-10S-JS-QS-KS''"
  by code_simp

theorem restore_toString_witness:
  "\<exists>d'. Deck_new (\<lambda>s. s) (Some ''AC-[2C]-3C-4C-5C-6C-7C-8C-9C-10C-JC-QC-KC-AD-2D-3D-4D-5D-6D-7D-8D-9D-10D-JD-QD-KD-AH-2H-3H-4H-5H-6H-7H-8H-9H-10H-JH-QH-KH-AS-2S-3S-4S-5S-6S-7S-8S-9S-10S-JS-QS-KS'') = Inr d' \<and>
        cards d' = map Some standard_cards \<and>
        hash d' = join ''-'' (map mnemonic standard_cards) \<and>
        top_pos d' = 1 \<and> seedHash d' = ZERO_HASH"
proof -
  define d0 where "d0 = \<lparr>cards = map Some standard_cards, cards_neg = (\<lambda>k. None),
       hash = join ''-'' (map mnemonic standard_cards), seedHash = ZERO_HASH, top_pos = 0\<rparr>"
  define d where "d = d0\<lparr>top_pos := 1\<rparr>"
  have a: "Deck_new (\<lambda>s. s) None = Inr d0"
    by (simp add: Deck_new_fresh d0_def)
  have "getNext d0 = (cards_read d0 0, d)"
    by (simp add: getNext_def d_def d0_def js_add_exact)
  then have r: "reaches (\<lambda>s. s) d0 d"
    using reaches.start by (rule reaches.after_getNext [rotated])
  have t: "toString d = Inr ''AC-[2C]-3C-4C-5C-6C-7C-8C-9C-10C-JC-QC-KC-AD-2D-3D-4D-5D-6D-7D-8D-9D-10D-JD-QD-KD-AH-2H-3H-4H-5H-6H-7H-8H-9H-10H-JH-QH-KH-AS-2S-3S-4S-5S-6S-7S-8S-9S-10S-JS-QS-KS''"
    using toString_second by (simp add: d_def d0_def)
  from restore_toString [OF a r t] show ?thesis
    by (simp add: d_def d0_def)
qed

text \<open>
  C6 (the code departs from the claim).  The claim: for every seed of 52 integers
  \<open>shuffle\<close> applies the permutation.  With the seed of 52 entries \<open>-1\<close> the first index is
  \<open>-1 % 52 = -1\<close>: the swap stores \<open>undefined\<close> in the last element and the card under the
  property \<open>-1\<close>, and the call ends in the type error of \<open>createHash\<close>, after the seed hash
  and the cards have changed.
\<close>

theorem shuffle_negative_seed:
  "js_rem (- 1) 52 = - 1 \<and>
   (case Deck_new H None of
      Inl e \<Rightarrow> False
    | Inr d \<Rightarrow>
        fst (shuffle H rnd (Some (replicate 52 (- 1))) d) = Some TypeError \<and>
        cards (snd (shuffle H rnd (Some (replicate 52 (- 1))) d)) ! 51 = None \<and>
        cards d ! 51 \<noteq> None)"
proof -
  define d where "d = \<lparr>cards = map Some standard_cards, cards_neg = (\<lambda>k. None),
          hash = H (join ''-'' (map mnemonic standard_cards)),
          seedHash = ZERO_HASH, top_pos = 0\<rparr>"
  have j: "js_rem (- 1) 52 = - 1"
    by (simp add: js_rem_def)
  have l: "length (cards d) = 52" "length (replicate 52 (- 1 :: int)) = 52"
    "replicate 52 (- 1 :: int) \<noteq> []"
    by (simp_all add: d_def length_standard_cards)
  have s: "replicate 52 (- 1 :: int) ! 51 = - 1"
    by simp
  have n: "js_rem (replicate 52 (- 1) ! 51) 52 < 0"
    "cards_neg d (js_rem (replicate 52 (- 1) ! 51) 52) = None"
    unfolding s j by (simp_all add: d_def)
  note f = shuffle_first_negative [OF l n, of H rnd]
  have "cards d ! 51 \<noteq> None"
    by (simp add: d_def length_standard_cards)
  with f j show ?thesis
    by (simp add: Deck_new_fresh d_def [symmetric])
qed







end
